theory Spec2Isabelle
  imports Complex_Main
begin

section \<open>Shared media types (src/media/Media.ts)\<close>

text \<open>
  Times, durations and bandwidths are JavaScript numbers in the source. They are
  modelled as \<open>int\<close>: the readers deliver integer milliseconds, and integer-valued
  doubles are exact far beyond any stream length.
\<close>

datatype media_type = DATA | AUDIO | VIDEO

text \<open>
  \<open>fixTimestamp\<close> takes \<open>{ time: number; duration?: number }\<close>; a \<open>Media.Sample\<close>
  extends it with the payload fields.
\<close>

record stamp =
  time :: int
  duration :: "int option"

record sample = stamp +
  data :: "nat list"
  compositionOffset :: "int option"
  isKeyFrame :: "bool option"
  subSamples :: "(nat \<times> nat) list option"

section \<open>Source (src/sources/Source.ts)\<close>

definition TIMESTAMP_HOLE_TOLERANCE :: int where
  "TIMESTAMP_HOLE_TOLERANCE = 7"

datatype source_error =
    UnexpectedSourceIssue string
  | RequestError string
  | MalformedPayload string
  | ResourceUnavailable
  | ReaderError string

text \<open>What a Source emits to its Playing object and to its own listeners.\<close>

datatype source_event =
    OnAudioSkipping int
  | OnVideoSkipping int
  | OnClose "source_error option"
  | OnData int int
  | Deliver media_type int "sample option"

text \<open>
  \<open>Metadata.liveTime\<close> is an anchor \<open>(value, when)\<close> read against the wall clock:
  the getter returns \<open>value + (now - when)\<close> and the setter re-anchors at \<open>now\<close>.
\<close>

record live_anchor =
  liveTimeValue :: int
  liveTimeWhen :: int

definition liveTime :: "live_anchor \<Rightarrow> int \<Rightarrow> int" where
  "liveTime m now = liveTimeValue m + (now - liveTimeWhen m)"

definition set_liveTime :: "live_anchor \<Rightarrow> int \<Rightarrow> int \<Rightarrow> live_anchor" where
  "set_liveTime m v now = m\<lparr>liveTimeValue := v, liveTimeWhen := now\<rparr>"

record media_tracks =
  audio :: "int option"
  video :: "int option"

record source =
  closed :: bool
  audioTime :: int
  videoTime :: int
  dataTime :: int
  fixLiveTime :: int
  metadata :: "live_anchor option"
  tracks :: media_tracks
  selectedTracks :: media_tracks
  firstSamples :: "(int \<times> sample) list option"
  lastStalls :: nat
  trackRequest :: bool
  emitted :: "source_event list"

definition emit :: "source_event list \<Rightarrow> source \<Rightarrow> source" where
  "emit evs s = s\<lparr>emitted := emitted s @ evs\<rparr>"

text \<open>The state the constructor leaves (the fields the model keeps).\<close>

definition new_source :: source where
  "new_source =
     \<lparr>closed = False, audioTime = -1, videoTime = -1, dataTime = -1, fixLiveTime = 0,
      metadata = None, tracks = \<lparr>audio = None, video = None\<rparr>,
      selectedTracks = \<lparr>audio = None, video = None\<rparr>, firstSamples = Some [],
      lastStalls = 0, trackRequest = False, emitted = []\<rparr>"

text \<open>
  \<open>Source.fixTimestamp(type, trackId, currentTime, sample)\<close>. The sample is mutated in
  place in the source; the model returns the new per-kind current time, the sample as
  it is left, and the Source with its events and live-time correction. Log lines are
  not modelled. \<open>now\<close> is the wall clock read by the \<open>liveTime\<close> accessor.
\<close>

definition fixLive :: "int \<Rightarrow> int \<Rightarrow> source \<Rightarrow> source" where
  "fixLive currentTime now s =
     (case metadata s of
        None \<Rightarrow> s
      | Some m \<Rightarrow>
          (let fixLT = currentTime - liveTime m now in
           if fixLT > 0 then
             s\<lparr>fixLiveTime := fixLiveTime s + fixLT,
               metadata := Some (set_liveTime m (liveTime m now + fixLT) now)\<rparr>
           else if fixLiveTime s \<noteq> 0 then s\<lparr>fixLiveTime := 0\<rparr>
           else s))"

definition skipping :: "media_type \<Rightarrow> int \<Rightarrow> source_event list" where
  "skipping k delta =
     (if delta > 0 then
        (if k = AUDIO then [OnAudioSkipping delta]
         else if k = VIDEO then [OnVideoSkipping delta]
         else [])
      else [])"

definition fixTimestamp ::
  "media_type \<Rightarrow> int \<Rightarrow> int \<Rightarrow> 'a stamp_scheme \<Rightarrow> int \<Rightarrow> source
     \<Rightarrow> int \<times> 'a stamp_scheme \<times> source" where
  "fixTimestamp type trackId currentTime smp now s =
     (let delta = (if currentTime \<ge> 0 then time smp - currentTime else 0);
          newDuration = (case duration smp of Some d \<Rightarrow> max 1 (d + delta) | None \<Rightarrow> 0);
          smp' =
            (if delta \<noteq> 0 \<and>
                (if type = DATA then delta < 0
                 else type \<noteq> AUDIO \<or> delta < TIMESTAMP_HOLE_TOLERANCE)
             then (if newDuration \<noteq> 0
                   then smp\<lparr>time := currentTime, duration := Some newDuration\<rparr>
                   else smp\<lparr>time := currentTime\<rparr>)
             else smp);
          evs = skipping type delta;
          currentTime' = time smp' + (case duration smp' of Some d \<Rightarrow> d | None \<Rightarrow> 0)
      in (currentTime', smp', fixLive currentTime' now (emit evs s)))"

text \<open>
  \<open>readAudio\<close>, \<open>readVideo\<close> and \<open>readData\<close>. The hand-over
  \<open>_onSample(_updateTrack(kind, trackId), sample)\<close> is recorded as a \<open>Deliver\<close>
  event; the receive-rate counters are not modelled.
\<close>

definition currentTime :: "source \<Rightarrow> int" where
  "currentTime s = max (max (audioTime s) (videoTime s)) (dataTime s)"

definition readAudio :: "int \<Rightarrow> sample option \<Rightarrow> int \<Rightarrow> source \<Rightarrow> source" where
  "readAudio trackId smp now s =
     (case smp of
        None \<Rightarrow> emit [Deliver AUDIO trackId None] s
      | Some sm \<Rightarrow>
          if trackId < 0 then emit [Deliver AUDIO trackId None] s
          else
            (case fixTimestamp AUDIO trackId (audioTime s) sm now s of
               (t, sm', s') \<Rightarrow> emit [Deliver AUDIO trackId (Some sm')] (s'\<lparr>audioTime := t\<rparr>)))"

definition readVideo :: "int \<Rightarrow> sample option \<Rightarrow> int \<Rightarrow> source \<Rightarrow> source" where
  "readVideo trackId smp now s =
     (case smp of
        None \<Rightarrow> emit [Deliver VIDEO trackId None] s
      | Some sm \<Rightarrow>
          if trackId < 0 then emit [Deliver VIDEO trackId None] s
          else
            (let extendableDuration =
                   (case duration sm of
                      Some d \<Rightarrow> if d < 0 then Some (- d) else None
                    | None \<Rightarrow> None);
                 sm0 = (case extendableDuration of
                          Some e \<Rightarrow> sm\<lparr>duration := Some e\<rparr>
                        | None \<Rightarrow> sm)
             in case fixTimestamp VIDEO trackId (videoTime s) sm0 now s of
                  (t, sm1, s1) \<Rightarrow>
                    (let s2 = s1\<lparr>videoTime := t\<rparr>;
                         delay = currentTime s2 - videoTime s2
                     in if extendableDuration \<noteq> None \<and> extendableDuration \<noteq> Some 0 \<and> delay > 0
                        then
                          emit [OnVideoSkipping delay,
                                Deliver VIDEO trackId
                                  (Some (sm1\<lparr>duration := map_option (\<lambda>d. d + delay) (duration sm1)\<rparr>))]
                            (s2\<lparr>videoTime := currentTime s2\<rparr>)
                        else emit [Deliver VIDEO trackId (Some sm1)] s2)))"

definition readData :: "int \<Rightarrow> int \<Rightarrow> int \<Rightarrow> source \<Rightarrow> source" where
  "readData trackId t now s =
     (if closed s then s
      else
        (case fixTimestamp DATA trackId (dataTime s) \<lparr>time = t, duration = None\<rparr> now s of
           (t', sm', s') \<Rightarrow> emit [OnData trackId (time sm')] (s'\<lparr>dataTime := t'\<rparr>)))"

text \<open>\<open>String.toLowerCase\<close> on ASCII letters and \<open>String.startsWith\<close>.\<close>

definition toLowerCase :: "string \<Rightarrow> string" where
  "toLowerCase =
     map (\<lambda>c. if (65::nat) \<le> of_char c \<and> of_char c \<le> (90::nat)
              then char_of (of_char c + (32::nat)) else c)"

definition startsWith :: "string \<Rightarrow> string \<Rightarrow> bool" where
  "startsWith s p = (take (length p) s = p)"

definition close :: "source_error option \<Rightarrow> source \<Rightarrow> source" where
  "close err s =
     (if closed s then s
      else
        (let err' =
               (case err of
                  Some (RequestError detail) \<Rightarrow>
                    (let d = toLowerCase detail in
                     if startsWith d ''stream open failed'' \<or> startsWith d ''404''
                     then Some ResourceUnavailable else err)
                | _ \<Rightarrow> err)
         in emit [OnClose err']
              (s\<lparr>closed := True, trackRequest := False,
                 selectedTracks := \<lparr>audio = None, video = None\<rparr>,
                 tracks := \<lparr>audio = None, video = None\<rparr>,
                 firstSamples := None, lastStalls := 0\<rparr>)))"

text \<open>
  The calls a Source receives over its lifetime: samples and data from its reader, and
  \<open>close\<close> from any path (reader error, request error, the player's stop).
\<close>

datatype source_op =
    ReadAudio int "sample option" int
  | ReadVideo int "sample option" int
  | ReadData int int int
  | Close "source_error option"

fun source_step :: "source \<Rightarrow> source_op \<Rightarrow> source" where
  "source_step s (ReadAudio trackId smp now) = readAudio trackId smp now s"
| "source_step s (ReadVideo trackId smp now) = readVideo trackId smp now s"
| "source_step s (ReadData trackId t now) = readData trackId t now s"
| "source_step s (Close err) = close err s"

definition source_run :: "source \<Rightarrow> source_op list \<Rightarrow> source" where
  "source_run = foldl source_step"

definition closeCount :: "source \<Rightarrow> nat" where
  "closeCount s = length (filter (\<lambda>e. case e of OnClose _ \<Rightarrow> True | _ \<Rightarrow> False) (emitted s))"

section \<open>Player buffer state (index.ts)\<close>

datatype buffer_state = NONE | LOW | OK | HIGH

datatype player_event = OnBufferState buffer_state | TryToPlay | SetPlaybackStart real

definition PAST_BUFFER :: real where "PAST_BUFFER = 20"
definition BUFFER_LIMIT_LOW :: int where "BUFFER_LIMIT_LOW = 150"
definition BUFFER_LIMIT_HIGH :: int where "BUFFER_LIMIT_HIGH = 550"

record player =
  bufferLimitLow :: int
  bufferLimitMiddle :: int
  bufferLimitHigh :: int
  bufferState :: buffer_state
  buffering :: bool
  hasPlayback :: bool
  hasSource :: bool
  playbackPrevTime :: "real option"
  fired :: "player_event list"

text \<open>
  The setters of the two limits. \<open>Math.round\<close> rounds a half up, so for integers
  \<open>Math.round(d / 2) = (d + 1) div 2\<close>.
\<close>

definition set_bufferLimitHigh :: "int \<Rightarrow> player \<Rightarrow> player" where
  "set_bufferLimitHigh v p =
     (let lo = min v (bufferLimitLow p) in
      p\<lparr>bufferLimitHigh := v, bufferLimitLow := lo,
        bufferLimitMiddle := max 0 (lo + (v - lo + 1) div 2)\<rparr>)"

definition set_bufferLimitLow :: "int \<Rightarrow> player \<Rightarrow> player" where
  "set_bufferLimitLow v p =
     set_bufferLimitHigh (max v (bufferLimitHigh p)) (p\<lparr>bufferLimitLow := v\<rparr>)"

definition new_player :: player where
  "new_player =
     set_bufferLimitHigh BUFFER_LIMIT_HIGH
       \<lparr>bufferLimitLow = BUFFER_LIMIT_LOW, bufferLimitMiddle = 0,
        bufferLimitHigh = BUFFER_LIMIT_HIGH, bufferState = NONE, buffering = False,
        hasPlayback = False, hasSource = False, playbackPrevTime = None, fired = []\<rparr>"

definition setBufferState :: "buffer_state \<Rightarrow> player \<Rightarrow> player" where
  "setBufferState st p =
     (if bufferState p \<noteq> st
      then p\<lparr>bufferState := st, fired := fired p @ [OnBufferState (bufferState p)]\<rparr>
      else p)"

text \<open>
  \<open>Player._onTimeUpdate\<close>. \<open>now\<close> is \<open>video.currentTime\<close> (seconds), \<open>start\<close> the
  playback start time, and \<open>bufferAmount\<close> the value the \<open>bufferAmount\<close> accessor
  returns when the method reads it (milliseconds); all three come from the media
  element. The playback-speed counter is not modelled.
\<close>

definition onTimeUpdate :: "real \<Rightarrow> real \<Rightarrow> int \<Rightarrow> player \<Rightarrow> player" where
  "onTimeUpdate now start bufferAmount p =
     (if \<not> hasPlayback p \<or> \<not> hasSource p then p
      else
        (let p1 = p\<lparr>playbackPrevTime := Some now\<rparr> in
         if bufferState p1 = NONE \<and> buffering p1 then p1
         else
           (let p2 = (if now > start + PAST_BUFFER
                      then p1\<lparr>fired := fired p1 @ [SetPlaybackStart (now - PAST_BUFFER)]\<rparr>
                      else p1)
            in if bufferAmount > bufferLimitLow p2 then
                 (let p3 = p2\<lparr>fired := fired p2 @ [TryToPlay]\<rparr> in
                  if bufferAmount > bufferLimitHigh p3 then setBufferState HIGH p3
                  else if (if bufferState p3 = LOW
                           then bufferAmount > bufferLimitMiddle p3
                           else bufferAmount < bufferLimitMiddle p3)
                       then setBufferState OK p3
                       else p3)
               else setBufferState LOW p2)))"

section \<open>CMAFWriter (src/media/writer/CMAFWriter.ts)\<close>

text \<open>
  \<open>BinaryWriter\<close> comes from the library \<open>@ceeblue/web-utils\<close>: it appends
  big-endian integers. \<open>write8\<close>, \<open>write16\<close> and \<open>write32\<close> saturate: a value above the
  largest one of the width is written as that largest value (\<open>write8(258)\<close> appends
  \<open>ff\<close>, \<open>write32(4294967296)\<close> appends \<open>ff ff ff ff\<close>); any other value is stored as
  \<open>DataView.setUintN\<close> stores it, so a negative one wraps around. \<open>write64\<close> is two
  \<open>write32\<close>: of the value divided by \<open>2^32\<close>, whose fraction \<open>setUint32\<close> drops, and of
  \<open>value & 0xffffffff\<close>. \<open>writeHex\<close> appends one byte per pair of hexadecimal digits.
  Bytes are \<open>nat\<close>s below 256.
\<close>

fun be_bytes :: "nat \<Rightarrow> nat \<Rightarrow> nat list" where
  "be_bytes 0 n = []"
| "be_bytes (Suc k) n = be_bytes k (n div 256) @ [n mod 256]"

definition write8 :: "int \<Rightarrow> nat list" where
  "write8 n = be_bytes 1 (nat ((if n > 0xff then 0xff else n) mod 2 ^ 8))"

definition write16 :: "int \<Rightarrow> nat list" where
  "write16 n = be_bytes 2 (nat ((if n > 0xffff then 0xffff else n) mod 2 ^ 16))"

definition write32 :: "int \<Rightarrow> nat list" where
  "write32 n = be_bytes 4 (nat ((if n > 0xffffffff then 0xffffffff else n) mod 2 ^ 32))"

definition write64 :: "int \<Rightarrow> nat list" where
  "write64 n = write32 (if n < 0 then - ((- n) div 2 ^ 32) else n div 2 ^ 32) @
               write32 (n mod 2 ^ 32)"

definition hexDigit :: "char \<Rightarrow> nat" where
  "hexDigit c =
     (let n = (of_char c :: nat) in
      if 48 \<le> n \<and> n \<le> 57 then n - 48
      else if 97 \<le> n \<and> n \<le> 102 then n - 87
      else if 65 \<le> n \<and> n \<le> 70 then n - 55
      else 0)"

fun writeHex :: "string \<Rightarrow> nat list" where
  "writeHex (a # b # cs) = (16 * hexDigit a + hexDigit b) # writeHex cs"
| "writeHex cs = []"

text \<open>Reading a big-endian integer back, to inspect what was written.\<close>

definition be_nat :: "nat list \<Rightarrow> nat" where
  "be_nat bs = foldl (\<lambda>acc b. acc * 256 + b) 0 bs"

datatype codec = UNKNOWN | H264 | HEVC | MP3 | AAC

datatype protection_scheme = CENC | CBC1 | CENS | CBCS

record content_protection =
  scheme :: protection_scheme
  kid :: string
  iv :: string
  pssh :: "(string \<times> string) list"

datatype cmaf_writer_error = UnsupportedCodec codec | UnsupportedTrackType media_type

text \<open>The writer's fields \<open>_sequence\<close> and \<open>_isVideo\<close>, as the constructor sets them.\<close>

record cmaf_writer =
  w_sequence :: nat
  w_isVideo :: bool

definition new_writer :: cmaf_writer where
  "new_writer = \<lparr>w_sequence = 0, w_isVideo = False\<rparr>"

text \<open>
  \<open>CMAFWriter.init(track, contentProtection?)\<close>: the codec check and its effect on
  the writer. The function takes the two fields of the track that decide it. The
  bytes of the initialization segment (\<open>ftyp\<close> and \<open>moov\<close>) that it hands to
  \<open>onWrite\<close> are not modelled; writing them assigns no field of the writer.
\<close>

definition cmaf_init :: "media_type \<Rightarrow> codec \<Rightarrow> cmaf_writer \<Rightarrow> cmaf_writer_error option \<times> cmaf_writer" where
  "cmaf_init trackType trackCodec w =
     (case trackType of
        AUDIO \<Rightarrow>
          if trackCodec \<noteq> AAC \<and> trackCodec \<noteq> MP3 then (Some (UnsupportedCodec trackCodec), w)
          else (None, w\<lparr>w_isVideo := False\<rparr>)
      | VIDEO \<Rightarrow>
          if trackCodec \<noteq> H264 then (Some (UnsupportedCodec trackCodec), w)
          else (None, w\<lparr>w_isVideo := True\<rparr>)
      | DATA \<Rightarrow> (Some (UnsupportedTrackType trackType), w))"

text \<open>
  \<open>CMAFWriter.write(sample, contentProtection?)\<close>: the two packets handed to
  \<open>onWrite\<close> (the \<open>moof\<close> box with the \<open>mdat\<close> header, then the sample data) and
  the writer with its sequence counter advanced.
\<close>

definition subSampleCount :: "sample \<Rightarrow> nat" where
  "subSampleCount smp = (case subSamples smp of Some l \<Rightarrow> length l | None \<Rightarrow> 0)"

definition cmaf_write ::
  "sample \<Rightarrow> content_protection option \<Rightarrow> cmaf_writer \<Rightarrow> nat list list \<times> cmaf_writer" where
  "cmaf_write smp cp w =
     (let sizeTrun = (36::int);
          withIV = (case cp of Some c \<Rightarrow> scheme c \<noteq> CBCS \<and> length (iv c) = 32 | None \<Rightarrow> False);
          withSaiz = (case cp of Some c \<Rightarrow> w_isVideo w \<or> scheme c \<noteq> CBCS | None \<Rightarrow> False);
          nSub = subSampleCount smp;
          sizeSaiz = (if withSaiz then 18 else 0 :: int);
          sizeSaio = (if withSaiz then 20 else 0 :: int);
          sizeSenc =
            (case cp of
               None \<Rightarrow> 0
             | Some c \<Rightarrow>
                 (if withIV then 16 else 0) + 16 +
                 (if nSub \<noteq> 0 then 2 + int nSub * 6 else 0 :: int));
          sizeTraf = 8 + 20 + 20 + sizeTrun + sizeSenc + sizeSaiz + sizeSaio;
          sizeMoof = 8 + 16 + sizeTraf;
          sequence' = Suc (w_sequence w);
          moof =
            write32 sizeMoof @ [0x6d, 0x6f, 0x6f, 0x66] @
            [0x00, 0x00, 0x00, 0x10, 0x6d, 0x66, 0x68, 0x64, 0x00, 0x00, 0x00, 0x00] @
            write32 (int sequence');
          traf =
            write32 sizeTraf @ [0x74, 0x72, 0x61, 0x66] @
            [0x00, 0x00, 0x00, 0x14, 0x74, 0x66, 0x68, 0x64, 0x00, 0x02, 0x00, 0x02] @
            write32 1 @ write32 1 @
            [0x00, 0x00, 0x00, 0x14, 0x74, 0x66, 0x64, 0x74, 0x01, 0x00, 0x00, 0x00] @
            write64 (time smp);
          trun =
            write32 sizeTrun @ [0x74, 0x72, 0x75, 0x6e] @
            write32 0x00000f01 @ write32 1 @ write32 (sizeMoof + 8) @
            write32 (case duration smp of Some d \<Rightarrow> d | None \<Rightarrow> 0) @
            write32 (int (length (data smp))) @
            write32 (if \<not> w_isVideo w \<or> isKeyFrame smp = Some True
                     then 0x02000000 else 0x01010000) @
            write32 (case compositionOffset smp of Some c \<Rightarrow> c | None \<Rightarrow> 0);
          protection =
            (case cp of
               None \<Rightarrow> []
             | Some c \<Rightarrow>
                 (if withSaiz then
                    write32 sizeSaiz @ [0x73, 0x61, 0x69, 0x7a] @ [0x00, 0x00, 0x00, 0x00] @
                    write8 0 @ write32 1 @
                    write8 ((if w_isVideo w then 6 * int nSub + 2 else 0) +
                            (if scheme c = CBCS then 0 else 16)) @
                    write32 sizeSaio @ [0x73, 0x61, 0x69, 0x6f] @ [0x00, 0x00, 0x00, 0x00] @
                    write32 1 @ write32 (sizeMoof - sizeSenc + 16)
                  else []) @
                 write32 sizeSenc @ [0x73, 0x65, 0x6e, 0x63] @
                 [0x00, 0x00, 0x00, if nSub \<noteq> 0 then 0x02 else 0x00] @
                 write32 1 @
                 (if withIV then writeHex (iv c) else []) @
                 (if nSub \<noteq> 0 then
                    write16 (int nSub) @
                    concat (map (\<lambda>(clearBytes, encryptedBytes).
                                   write16 (int clearBytes) @ write32 (int encryptedBytes))
                              (case subSamples smp of Some l \<Rightarrow> l | None \<Rightarrow> []))
                  else []));
          mdat = write32 (8 + int (length (data smp))) @ [0x6d, 0x64, 0x61, 0x74]
      in ([moof @ traf @ trun @ protection @ mdat, data smp], w\<lparr>w_sequence := sequence'\<rparr>))"

text \<open>The \<open>sequence_number\<close> of the \<open>mfhd\<close> box of a written fragment: bytes 20 to 23.\<close>

definition mfhd_sequence :: "nat list list \<Rightarrow> nat" where
  "mfhd_sequence packets = be_nat (take 4 (drop 20 (hd packets)))"

text \<open>
  The calls a writer receives: \<open>MediaBuffer.append\<close> calls \<open>init\<close> on the same
  writer at every track change and \<open>write\<close> for every sample. \<open>writer_run\<close>
  collects the sequence number of each fragment written.
\<close>

datatype writer_op = Init media_type codec | Write sample "content_protection option"

fun writer_run :: "cmaf_writer \<Rightarrow> writer_op list \<Rightarrow> nat list \<times> cmaf_writer" where
  "writer_run w [] = ([], w)"
| "writer_run w (Init ty co # ops) = writer_run (snd (cmaf_init ty co w)) ops"
| "writer_run w (Write smp cp # ops) =
     (case cmaf_write smp cp w of
        (packets, w') \<Rightarrow>
          (case writer_run w' ops of (ns, w'') \<Rightarrow> (mfhd_sequence packets # ns, w'')))"

definition writes :: "writer_op list \<Rightarrow> nat" where
  "writes ops = length (filter (\<lambda>x. case x of Write _ _ \<Rightarrow> True | _ \<Rightarrow> False) ops)"

section \<open>RTSReader (src/media/reader/RTSReader.ts, src/media/reader/Reader.ts)\<close>



















section \<open>HTTPAdaptiveSource (src/sources/HTTPAdaptiveSource.ts)\<close>

datatype http_method = GET | HEAD

text \<open>
  A request for a sequence of a track, as \<open>_downloadSequence\<close> builds it. \<open>range\<close>
  is the last byte of the header \<open>Range: bytes=0-<last>\<close>, when the header is set.
\<close>

datatype request =
  Request (req_method: http_method) (req_track: int) (req_sequence: int) (req_range: "int option")


text \<open>
  The request of \<open>_downloadSequence(playing, controller, trackId, sequence, length)\<close>
  once \<open>length\<close> is settled: a HEAD when \<open>length === 0\<close>, else a GET, with a Range
  header when \<open>length\<close> is set and not zero.
\<close>

definition sequence_request :: "int \<Rightarrow> int \<Rightarrow> int option \<Rightarrow> request" where
  "sequence_request trackId sequence len =
     Request (if len = Some 0 then HEAD else GET) trackId sequence
       (case len of Some l \<Rightarrow> if l \<noteq> 0 then Some (l - 1) else None | None \<Rightarrow> None)"










text \<open>
  A rendition as the download phase reads it: its id and bandwidth, whether its
  resolution exceeds the screen (\<open>Media.overScreenSize\<close>) and the rendition above.
\<close>

datatype rendition =
  Rendition (r_id: int) (r_bandwidth: int) (r_overScreen: bool) (r_up: "rendition option")

datatype probe = NoProbe | NoEmulation | Probe request | ProbeTypeError

text \<open>
  The bandwidth-emulation request of the download phase. \<open>tryOk\<close> is what
  \<open>adaptiveRetry.try()\<close> returns at this point; the source calls it only when
  \<open>videoTrack\<close> and \<open>prevVideoTime\<close> are set.
  \<open>Math.ceil(x / 1000)\<close> on integers is \<open>- ((- x) div 1000)\<close>. With
  \<open>prevVideoSequence\<close> undefined, building the URL throws a TypeError.
\<close>

definition up_probe ::
  "rendition option \<Rightarrow> int option \<Rightarrow> bool \<Rightarrow> int \<Rightarrow> int option \<Rightarrow> probe" where
  "up_probe videoTrack prevVideoTime tryOk videoTime_now prevVideoSequence =
     (case videoTrack of
        None \<Rightarrow> NoProbe
      | Some vt \<Rightarrow>
          (case prevVideoTime of
             None \<Rightarrow> NoProbe
           | Some pvt \<Rightarrow>
               if \<not> tryOk then NoProbe
               else
                 (case r_up vt of
                    None \<Rightarrow> NoProbe
                  | Some u \<Rightarrow>
                      if r_overScreen u then NoProbe
                      else
                        (let extraByteRateRequired = r_bandwidth u - r_bandwidth vt in
                         if extraByteRateRequired \<ge> 0 then
                           (let bytes = - ((- (extraByteRateRequired * (videoTime_now - pvt))) div 1000)
                            in case prevVideoSequence of
                                 None \<Rightarrow> ProbeTypeError
                               | Some ps \<Rightarrow> Probe (sequence_request (r_id u) ps (Some bytes)))
                         else NoEmulation))))"





section \<open>Metadata (src/media/Metadata.ts, src/media/MediaTrack.ts)\<close>

text \<open>
  Tracks are objects that \<open>fix\<close> links to one another and that the per-kind lists
  and the \<open>tracks\<close> map share, so the model keeps them in a store: an address
  stands for a \<open>MediaTrack\<close> object, and the lists and the map hold addresses. Of
  a track the model keeps the fields that \<open>fix\<close> reads or writes. A JavaScript
  \<open>Map\<close> is an association list in insertion order.
\<close>

type_synonym addr = nat

record media_track =
  track_id :: int
  track_type :: media_type
  bandwidth :: int
  up :: "addr option"
  down :: "addr option"

type_synonym heap = "addr \<Rightarrow> media_track"

record meta =
  m_tracks :: "(int \<times> addr) list"
  audioTracks :: "addr list"
  videoTracks :: "addr list"
  dataTracks :: "addr list"

text \<open>\<open>Map.set\<close>: the value of a key that is present is replaced in place.\<close>

fun map_set :: "(int \<times> addr) list \<Rightarrow> int \<Rightarrow> addr \<Rightarrow> (int \<times> addr) list" where
  "map_set [] k v = [(k, v)]"
| "map_set ((k', v') # m) k v = (if k' = k then (k, v) # m else (k', v') # map_set m k v)"

text \<open>
  The list \<open>fix\<close> selects for a track type: \<open>audioTracks\<close>, \<open>videoTracks\<close>, and
  \<open>dataTracks\<close> for anything else.
\<close>

definition medias_of :: "media_type \<Rightarrow> meta \<Rightarrow> addr list" where
  "medias_of ty m =
     (if ty = AUDIO then audioTracks m else if ty = VIDEO then videoTracks m else dataTracks m)"

definition push_media :: "media_type \<Rightarrow> addr \<Rightarrow> meta \<Rightarrow> meta" where
  "push_media ty a m =
     (if ty = AUDIO then m\<lparr>audioTracks := audioTracks m @ [a]\<rparr>
      else if ty = VIDEO then m\<lparr>videoTracks := videoTracks m @ [a]\<rparr>
      else m\<lparr>dataTracks := dataTracks m @ [a]\<rparr>)"

text \<open>
  \<open>track.down = undefined; track.up = medias[medias.length - 1];
  if (track.up) track.up.down = track\<close>.
\<close>

definition link_last :: "heap \<Rightarrow> addr list \<Rightarrow> addr \<Rightarrow> heap" where
  "link_last h medias a =
     (case (if medias = [] then None else Some (last medias)) of
        None \<Rightarrow> h(a := (h a)\<lparr>down := None, up := None\<rparr>)
      | Some u \<Rightarrow>
          (h(a := (h a)\<lparr>down := None, up := Some u\<rparr>))
            (u := ((h(a := (h a)\<lparr>down := None, up := Some u\<rparr>)) u)\<lparr>down := Some a\<rparr>))"

text \<open>
  One turn of the loop of \<open>fix\<close> over the sorted tracks: the track is set in the
  map, and when the map did not grow the turn ends there.
\<close>

definition fix_step :: "heap \<times> meta \<Rightarrow> addr \<Rightarrow> heap \<times> meta" where
  "fix_step hm a =
     (case hm of (h, m) \<Rightarrow>
        (let sz = length (m_tracks m);
             m1 = m\<lparr>m_tracks := map_set (m_tracks m) (track_id (h a)) a\<rparr>
         in if sz = length (m_tracks m1) then (h, m1)
            else (link_last h (medias_of (track_type (h a)) m1) a,
                  push_media (track_type (h a)) a m1)))"

text \<open>
  \<open>Metadata.fix()\<close>. \<open>Array.prototype.sort\<close> is stable; with the comparator
  \<open>track2.bandwidth - track1.bandwidth\<close> it is the stable sort on the key
  \<open>- bandwidth\<close>. The lists \<open>audioTracks\<close> and \<open>videoTracks\<close> and the map are
  emptied before the loop; \<open>dataTracks\<close> is not.
\<close>

definition fix_metadata :: "heap \<Rightarrow> meta \<Rightarrow> heap \<times> meta" where
  "fix_metadata h m =
     (let ts = videoTracks m @ audioTracks m @ dataTracks m @ map snd (m_tracks m);
          sorted_ts = sort_key (\<lambda>a. - bandwidth (h a)) ts
      in foldl fix_step (h, m\<lparr>audioTracks := [], videoTracks := [], m_tracks := []\<rparr>) sorted_ts)"


text \<open>
  The shape of a per-kind list after \<open>fix\<close>, read from its last track to its first:
  each track points down to the track after it and up to the track before it, which
  has at least its bandwidth.
\<close>

fun rchain :: "heap \<Rightarrow> addr option \<Rightarrow> addr list \<Rightarrow> bool" where
  "rchain h nxt [] = True"
| "rchain h nxt (a # as) =
     (down (h a) = nxt \<and>
      up (h a) = (case as of [] \<Rightarrow> None | b # _ \<Rightarrow> Some b) \<and>
      (case as of [] \<Rightarrow> True | b # _ \<Rightarrow> bandwidth (h a) \<le> bandwidth (h b)) \<and>
      rchain h (Some a) as)"

definition fix_inv :: "heap \<Rightarrow> meta \<Rightarrow> bool" where
  "fix_inv h m =
     (\<forall>ty. distinct (medias_of ty m) \<and> rchain h None (rev (medias_of ty m)) \<and>
        (\<forall>x \<in> set (medias_of ty m).
            track_type (h x) = ty \<and> track_id (h x) \<in> fst ` set (m_tracks m)))"

section \<open>Timestamp repair\<close>

lemma fixTimestamp_sample:
  "fst (snd (fixTimestamp k tid cur smp now s)) =
     (let delta = (if cur \<ge> 0 then time smp - cur else 0) in
      if delta \<noteq> 0 \<and> (if k = DATA then delta < 0 else k \<noteq> AUDIO \<or> delta < 7)
      then smp\<lparr>time := cur, duration := map_option (\<lambda>d. max 1 (d + delta)) (duration smp)\<rparr>
      else smp)"
  by (cases "duration smp")
     (simp_all add: fixTimestamp_def TIMESTAMP_HOLE_TOLERANCE_def Let_def)

lemma fixTimestamp_time:
  "fst (fixTimestamp k tid cur smp now s) =
     time (fst (snd (fixTimestamp k tid cur smp now s))) +
     (case duration (fst (snd (fixTimestamp k tid cur smp now s))) of Some d \<Rightarrow> d | None \<Rightarrow> 0)"
  by (simp add: fixTimestamp_def Let_def)

lemma fixTimestamp_mono:
  assumes "0 \<le> time smp" and "\<forall>d. duration smp = Some d \<longrightarrow> 0 \<le> d"
  shows "cur \<le> fst (fixTimestamp k tid cur smp now s)"
proof (cases "duration smp")
  case None
  then show ?thesis
    using assms(1) by (simp add: fixTimestamp_time fixTimestamp_sample Let_def)
next
  case (Some d)
  with assms(2) have "0 \<le> d" by simp
  with Some assms(1) show ?thesis
    by (auto simp add: fixTimestamp_time fixTimestamp_sample Let_def max_def)
qed

lemma emit_fields [simp]:
  "closed (emit evs s) = closed s"
  "audioTime (emit evs s) = audioTime s"
  "videoTime (emit evs s) = videoTime s"
  "dataTime (emit evs s) = dataTime s"
  "emitted (emit evs s) = emitted s @ evs"
  by (simp_all add: emit_def)

lemma fixLive_fields [simp]:
  "closed (fixLive c now s) = closed s"
  "audioTime (fixLive c now s) = audioTime s"
  "videoTime (fixLive c now s) = videoTime s"
  "dataTime (fixLive c now s) = dataTime s"
  "emitted (fixLive c now s) = emitted s"
  by (simp_all add: fixLive_def Let_def split: option.splits)

lemma fixTimestamp_state:
  "snd (snd (fixTimestamp k tid cur smp now s)) =
     fixLive (fst (fixTimestamp k tid cur smp now s)) now
       (emit (skipping k (if cur \<ge> 0 then time smp - cur else 0)) s)"
  by (simp add: fixTimestamp_def Let_def)

lemma closeCount_emit:
  "closeCount (emit evs s) = closeCount s + closeCount (s\<lparr>emitted := evs\<rparr>)"
  by (simp add: closeCount_def)

lemma closeCount_skipping [simp]: "closeCount (s\<lparr>emitted := skipping k d\<rparr>) = 0"
  by (simp add: closeCount_def skipping_def)

lemma closeCount_fixLive [simp]: "closeCount (fixLive c now s) = closeCount s"
  by (simp add: closeCount_def)

lemma fixTimestamp_closed [simp]:
  "closed (snd (snd (fixTimestamp k tid cur smp now s))) = closed s"
  by (simp add: fixTimestamp_state)

lemma fixTimestamp_closeCount [simp]:
  "closeCount (snd (snd (fixTimestamp k tid cur smp now s))) = closeCount s"
  by (simp add: fixTimestamp_state closeCount_emit)

lemma readVideo_mono:
  assumes "0 \<le> time sm"
  shows "videoTime s \<le> videoTime (readVideo tid (Some sm) now s)"
proof (cases "tid < 0")
  case True
  then show ?thesis by (simp add: readVideo_def emit_def)
next
  case False
  define sm0 where
    "sm0 = (case duration sm of
              Some d \<Rightarrow> if d < 0 then sm\<lparr>duration := Some (- d)\<rparr> else sm
            | None \<Rightarrow> sm)"
  have t0: "0 \<le> time sm0"
    using assms by (simp add: sm0_def split: option.splits)
  have d0: "\<forall>d. duration sm0 = Some d \<longrightarrow> 0 \<le> d"
    by (auto simp: sm0_def split: option.splits if_splits)
  have m: "videoTime s \<le> fst (fixTimestamp VIDEO tid (videoTime s) sm0 now s)"
    by (rule fixTimestamp_mono [OF t0 d0])
  obtain t sm1 s1 where r: "fixTimestamp VIDEO tid (videoTime s) sm0 now s = (t, sm1, s1)"
    by (cases "fixTimestamp VIDEO tid (videoTime s) sm0 now s") auto
  from m r have "videoTime s \<le> t" by simp
  moreover have "readVideo tid (Some sm) now s =
      (let s2 = s1\<lparr>videoTime := t\<rparr>; delay = currentTime s2 - videoTime s2 in
       if (\<exists>d. duration sm = Some d \<and> d < 0) \<and> delay > 0
       then emit [OnVideoSkipping delay,
              Deliver VIDEO tid
                (Some (sm1\<lparr>duration := map_option (\<lambda>d. d + delay) (duration sm1)\<rparr>))]
              (s2\<lparr>videoTime := currentTime s2\<rparr>)
       else emit [Deliver VIDEO tid (Some sm1)] s2)"
    using False r
    by (cases "duration sm") (auto simp: readVideo_def sm0_def Let_def)
  ultimately show ?thesis
    by (auto simp: Let_def emit_def currentTime_def)
qed

lemma fixTimestamp_result:
  assumes "fixTimestamp k tid c smp now s = (t, smp', s')"
  shows "closed s' = closed s" and "closeCount s' = closeCount s"
  using fixTimestamp_closed [of k tid c smp now s]
    fixTimestamp_closeCount [of k tid c smp now s] assms
  by simp_all

lemma closeCount_other [simp]:
  "closeCount (emit [] s) = closeCount s"
  "closeCount (emit (Deliver k tid x # evs) s) = closeCount (emit evs s)"
  "closeCount (emit (OnVideoSkipping d # evs) s) = closeCount (emit evs s)"
  "closeCount (emit (OnData tid t # evs) s) = closeCount (emit evs s)"
  "closeCount (s\<lparr>audioTime := t\<rparr>) = closeCount s"
  "closeCount (s\<lparr>videoTime := t\<rparr>) = closeCount s"
  "closeCount (s\<lparr>dataTime := t\<rparr>) = closeCount s"
  by (simp_all add: closeCount_def emit_def)

lemma readAudio_fields [simp]:
  "closed (readAudio tid smp now s) = closed s"
  "closeCount (readAudio tid smp now s) = closeCount s"
  by (auto simp: readAudio_def split: option.splits prod.splits dest: fixTimestamp_result)

lemma readVideo_fields [simp]:
  "closed (readVideo tid smp now s) = closed s"
  "closeCount (readVideo tid smp now s) = closeCount s"
  by (auto simp: readVideo_def Let_def split: option.splits prod.splits
      dest: fixTimestamp_result)

lemma readData_fields [simp]:
  "closed (readData tid t now s) = closed s"
  "closeCount (readData tid t now s) = closeCount s"
  by (auto simp: readData_def split: option.splits prod.splits dest: fixTimestamp_result)

lemma close_closed [simp]: "closed (close err s)"
  by (simp add: close_def Let_def)

lemma close_when_closed: "closed s \<Longrightarrow> close err s = s"
  by (simp add: close_def)

lemma closeCount_close:
  "closeCount (close err s) = (if closed s then closeCount s else Suc (closeCount s))"
  by (simp add: close_def Let_def closeCount_def)

lemma source_step_inv:
  assumes "closeCount s = (if closed s then 1 else 0)"
  shows "closeCount (source_step s x) = (if closed (source_step s x) then 1 else 0)"
  using assms by (cases x) (simp_all add: closeCount_close)

lemma source_run_inv:
  "closeCount s = (if closed s then 1 else 0) \<Longrightarrow>
   closeCount (source_run s ops) = (if closed (source_run s ops) then 1 else 0)"
  unfolding source_run_def
proof (induction ops arbitrary: s)
  case Nil
  then show ?case by simp
next
  case (Cons x xs)
  from Cons.prems have "closeCount (source_step s x) = (if closed (source_step s x) then 1 else 0)"
    by (rule source_step_inv)
  then show ?case
    using Cons.IH [of "source_step s x"] by simp
qed

lemma new_source_inv: "closeCount new_source = (if closed new_source then 1 else 0)"
  by (simp add: new_source_def closeCount_def)

text \<open>
  C1 (amended). For an audio sample ingested through \<open>fixTimestamp\<close> when a prior
  per-kind current time exists (\<open>cur \<ge> 0\<close>), a forward gap of 7 ms or more is skipped:
  the sample is left unchanged, at exactly 7 ms and at 8 ms alike. An overlap, or a
  forward gap strictly below the 7 ms tolerance, is repaired: \<open>sample.time\<close> is set
  back to the current time and a set duration becomes \<open>max(1, duration + delta)\<close>.
\<close>

theorem C1_audio_hole_tolerance:
  assumes "0 \<le> cur"
  shows "(7 \<le> time smp - cur \<longrightarrow>
            fst (snd (fixTimestamp AUDIO tid cur smp now s)) = smp) \<and>
         (time smp - cur < 7 \<and> time smp \<noteq> cur \<longrightarrow>
            fst (snd (fixTimestamp AUDIO tid cur smp now s)) =
              smp\<lparr>time := cur,
                  duration := map_option (\<lambda>d. max 1 (d + (time smp - cur))) (duration smp)\<rparr>)"
  using assms by (simp add: fixTimestamp_sample Let_def)

theorem C1_audio_hole_tolerance_witness:
  "fst (snd (fixTimestamp AUDIO 0 1000 \<lparr>time = 1007, duration = Some 20\<rparr> 0 new_source))
     = \<lparr>time = 1007, duration = Some 20\<rparr> \<and>
   fst (snd (fixTimestamp AUDIO 0 1000 \<lparr>time = 1008, duration = Some 20\<rparr> 0 new_source))
     = \<lparr>time = 1008, duration = Some 20\<rparr> \<and>
   fst (snd (fixTimestamp AUDIO 0 1000 \<lparr>time = 1006, duration = Some 20\<rparr> 0 new_source))
     = \<lparr>time = 1000, duration = Some 26\<rparr>"
  using C1_audio_hole_tolerance [of 1000 "\<lparr>time = 1007, duration = Some 20\<rparr>" 0 0 new_source]
    C1_audio_hole_tolerance [of 1000 "\<lparr>time = 1008, duration = Some 20\<rparr>" 0 0 new_source]
    C1_audio_hole_tolerance [of 1000 "\<lparr>time = 1006, duration = Some 20\<rparr>" 0 0 new_source]
  by simp

text \<open>
  The claim as written fails at a gap of 8 ms: with current time 1000, the audio sample
  at 1008 with duration 20 is left at 1008, not set back to 1000 with duration 28.
\<close>

theorem C1_gap_8_not_repaired:
  "fst (snd (fixTimestamp AUDIO 0 1000 \<lparr>time = 1008, duration = Some 20\<rparr> 0 new_source))
     \<noteq> \<lparr>time = 1000, duration = Some (max 1 (20 + 8))\<rparr>"
  by (simp add: fixTimestamp_sample Let_def)

text \<open>
  C4 (amended). For each kind, the per-kind current time returned by \<open>fixTimestamp\<close>
  never falls below the current time passed in, for a sample whose duration is unset
  or non-negative when it is repaired; the returned value is then the repaired
  \<open>sample.time\<close> plus \<open>max(sample.duration, 0)\<close>. \<open>readVideo\<close> makes a negative
  (extendable) duration positive before repair, so the video time never decreases
  whatever the sign of the ingested duration.
\<close>

theorem C4_current_time_monotone:
  assumes "0 \<le> time smp" and "0 \<le> time sm"
  shows "((\<forall>d. duration smp = Some d \<longrightarrow> 0 \<le> d) \<longrightarrow>
            cur \<le> fst (fixTimestamp k tid cur smp now s) \<and>
            fst (fixTimestamp k tid cur smp now s) =
              time (fst (snd (fixTimestamp k tid cur smp now s))) +
              max (case duration (fst (snd (fixTimestamp k tid cur smp now s))) of
                     Some d \<Rightarrow> d | None \<Rightarrow> 0) 0) \<and>
         videoTime s \<le> videoTime (readVideo tid (Some sm) now s)"
proof (intro conjI impI)
  assume d: "\<forall>d. duration smp = Some d \<longrightarrow> 0 \<le> d"
  show "cur \<le> fst (fixTimestamp k tid cur smp now s)"
    by (rule fixTimestamp_mono [OF assms(1) d])
  have "0 \<le> (case duration (fst (snd (fixTimestamp k tid cur smp now s))) of
                Some d \<Rightarrow> d | None \<Rightarrow> 0)"
    using d by (auto simp: fixTimestamp_sample Let_def split: option.splits)
  then show "fst (fixTimestamp k tid cur smp now s) =
      time (fst (snd (fixTimestamp k tid cur smp now s))) +
      max (case duration (fst (snd (fixTimestamp k tid cur smp now s))) of
             Some d \<Rightarrow> d | None \<Rightarrow> 0) 0"
    by (subst fixTimestamp_time) simp
next
  show "videoTime s \<le> videoTime (readVideo tid (Some sm) now s)"
    by (rule readVideo_mono [OF assms(2)])
qed

theorem C4_current_time_monotone_witness:
  "(1000::int) \<le>
     fst (fixTimestamp VIDEO 1 1000 \<lparr>time = 1040, duration = Some 40\<rparr> 0
            (new_source\<lparr>videoTime := 1000, audioTime := 1100\<rparr>)) \<and>
   fst (fixTimestamp VIDEO 1 1000 \<lparr>time = 1040, duration = Some 40\<rparr> 0
          (new_source\<lparr>videoTime := 1000, audioTime := 1100\<rparr>)) = 1000 + max 80 0 \<and>
   videoTime (new_source\<lparr>videoTime := 1000, audioTime := 1100\<rparr>)
     \<le> videoTime
          (readVideo 1
             (Some \<lparr>time = 1040, duration = Some (- 40), data = [], compositionOffset = None,
                    isKeyFrame = Some True, subSamples = None\<rparr>)
             0 (new_source\<lparr>videoTime := 1000, audioTime := 1100\<rparr>))"
  using C4_current_time_monotone
    [where smp = "\<lparr>time = 1040, duration = Some 40\<rparr>"
       and sm = "\<lparr>time = 1040, duration = Some (- 40), data = [], compositionOffset = None,
                  isKeyFrame = Some True, subSamples = None\<rparr>"
       and cur = 1000 and k = VIDEO and tid = 1 and now = 0
       and s = "new_source\<lparr>videoTime := 1000, audioTime := 1100\<rparr>"]
  by (simp add: fixTimestamp_sample Let_def)

text \<open>
  The claim as written fails for an audio sample with a negative duration, which
  \<open>readAudio\<close> passes to \<open>fixTimestamp\<close> as it is: at current time 1000, the sample
  at 1007 with duration -100 is not repaired and the returned current time is 907,
  neither \<open>1007 + max(-100, 0)\<close> nor at least 1000.
\<close>

theorem C4_negative_audio_duration:
  "fst (fixTimestamp AUDIO 0 1000 \<lparr>time = 1007, duration = Some (- 100)\<rparr> 0 new_source) = 907 \<and>
   audioTime
     (readAudio 0
        (Some \<lparr>time = 1007, duration = Some (- 100), data = [], compositionOffset = None,
               isKeyFrame = None, subSamples = None\<rparr>)
        0 (new_source\<lparr>audioTime := 1000\<rparr>)) = 907"
  by (simp add: readAudio_def fixTimestamp_def Let_def TIMESTAMP_HOLE_TOLERANCE_def
      skipping_def emit_def fixLive_def new_source_def)

text \<open>
  C10. \<open>Source.close\<close> is idempotent: on a closed Source a further \<open>close(error?)\<close>
  returns the Source unchanged, so closing twice is closing once, and over any
  sequence of calls on a new Source (samples, data and closes from any error path)
  \<open>onClose\<close> fires at most once.
\<close>

theorem C10_close_idempotent:
  "(closed s \<longrightarrow> close err s = s) \<and>
   close e2 (close e1 s) = close e1 s \<and>
   closeCount (source_run new_source ops) \<le> 1"
proof (intro conjI impI)
  show "closed s \<Longrightarrow> close err s = s"
    by (rule close_when_closed)
  show "close e2 (close e1 s) = close e1 s"
    by (rule close_when_closed) simp
  show "closeCount (source_run new_source ops) \<le> 1"
    using source_run_inv [OF new_source_inv, of ops] by simp
qed

theorem C10_close_idempotent_witness:
  "closed (close None new_source) \<and>
   close (Some (RequestError ''404 not found'')) (close None new_source) = close None new_source \<and>
   closeCount
     (source_run new_source
        [Close (Some (RequestError ''404 not found'')), ReadData 0 10 0, Close None]) \<le> 1"
  using C10_close_idempotent
    [of "close None new_source" "Some (RequestError ''404 not found'')"
        "Some (RequestError ''404 not found'')" None
        "[Close (Some (RequestError ''404 not found'')), ReadData 0 10 0, Close None]"]
  by simp

section \<open>Buffer state machine\<close>

lemma set_bufferLimitHigh_ordered:
  "bufferLimitLow (set_bufferLimitHigh v p) \<le> bufferLimitHigh (set_bufferLimitHigh v p)"
  by (simp add: set_bufferLimitHigh_def Let_def)

lemma set_bufferLimitLow_ordered:
  "bufferLimitLow (set_bufferLimitLow v p) \<le> bufferLimitHigh (set_bufferLimitLow v p)"
  by (simp add: set_bufferLimitLow_def set_bufferLimitHigh_ordered)

lemma new_player_limits:
  "bufferLimitLow new_player = 150"
  "bufferLimitMiddle new_player = 350"
  "bufferLimitHigh new_player = 550"
  by (simp_all add: new_player_def set_bufferLimitHigh_def BUFFER_LIMIT_LOW_def
      BUFFER_LIMIT_HIGH_def Let_def)

lemma bufferState_setBufferState [simp]: "bufferState (setBufferState st p) = st"
  by (simp add: setBufferState_def)

text \<open>
  C2. On a time-update after the first buffering has ended (the state is no longer
  NONE), with playback and source present, the new buffer state is HIGH when
  \<open>bufferAmount > bufferLimitHigh\<close>, LOW when \<open>bufferAmount \<le> bufferLimitLow\<close>, and
  otherwise OK with hysteresis: from LOW it becomes OK only when
  \<open>bufferAmount > bufferLimitMiddle\<close>, from HIGH only when
  \<open>bufferAmount < bufferLimitMiddle\<close>, and else it is unchanged. The limits are
  ordered \<open>low \<le> high\<close>, which their setters maintain.
\<close>

theorem C2_buffer_state_transition:
  assumes "hasPlayback p" and "hasSource p" and "bufferState p \<noteq> NONE"
    and "bufferLimitLow p \<le> bufferLimitHigh p"
  shows "bufferState (onTimeUpdate now start amount p) =
           (if amount > bufferLimitHigh p then HIGH
            else if amount \<le> bufferLimitLow p then LOW
            else if bufferState p = LOW
              then (if amount > bufferLimitMiddle p then OK else LOW)
            else if bufferState p = HIGH
              then (if amount < bufferLimitMiddle p then OK else HIGH)
            else OK)"
proof -
  from assms(3) consider "bufferState p = LOW" | "bufferState p = OK" | "bufferState p = HIGH"
    by (cases "bufferState p") auto
  then show ?thesis
    using assms(1,2,4) by cases (auto simp: onTimeUpdate_def Let_def)
qed

theorem C2_buffer_state_transition_witness:
  "bufferState
     (onTimeUpdate 1 0 400
        (new_player\<lparr>hasPlayback := True, hasSource := True, bufferState := LOW\<rparr>)) = OK \<and>
   bufferState
     (onTimeUpdate 1 0 300
        (new_player\<lparr>hasPlayback := True, hasSource := True, bufferState := LOW\<rparr>)) = LOW \<and>
   bufferState
     (onTimeUpdate 1 0 400
        (new_player\<lparr>hasPlayback := True, hasSource := True, bufferState := HIGH\<rparr>)) = HIGH"
  using C2_buffer_state_transition
    [of "new_player\<lparr>hasPlayback := True, hasSource := True, bufferState := LOW\<rparr>" 1 0 400]
    C2_buffer_state_transition
    [of "new_player\<lparr>hasPlayback := True, hasSource := True, bufferState := LOW\<rparr>" 1 0 300]
    C2_buffer_state_transition
    [of "new_player\<lparr>hasPlayback := True, hasSource := True, bufferState := HIGH\<rparr>" 1 0 400]
  by (simp add: new_player_limits)

section \<open>Fragment sequence numbers\<close>

lemma length_be_bytes [simp]: "length (be_bytes k n) = k"
  by (induction k arbitrary: n) simp_all

lemma be_nat_append: "be_nat (xs @ [b]) = be_nat xs * 256 + b"
  by (simp add: be_nat_def)

lemma be_nat_be_bytes: "be_nat (be_bytes k n) = n mod 256 ^ k"
proof (induction k arbitrary: n)
  case 0
  then show ?case by (simp add: be_nat_def)
next
  case (Suc k)
  have "be_nat (be_bytes (Suc k) n) = (n div 256) mod 256 ^ k * 256 + n mod 256"
    by (simp add: be_nat_append Suc.IH)
  also have "\<dots> = n mod 256 ^ Suc k"
    by (simp add: mod_mult2_eq)
  finally show ?case .
qed

lemma length_write32 [simp]: "length (write32 n) = 4"
  by (simp add: write32_def)

lemma mfhd_sequence_write:
  "mfhd_sequence (fst (cmaf_write smp cp w)) = min (Suc (w_sequence w)) 0xffffffff"
proof -
  have "be_nat (write32 (int (Suc (w_sequence w)))) = min (Suc (w_sequence w)) 0xffffffff"
    unfolding write32_def be_nat_be_bytes
    by (simp add: nat_mod_distrib nat_power_eq nat_add_distrib min_def)
  then show ?thesis
    by (simp add: mfhd_sequence_def cmaf_write_def Let_def)
qed

lemma cmaf_init_sequence [simp]: "w_sequence (snd (cmaf_init ty co w)) = w_sequence w"
  by (cases ty) (simp_all add: cmaf_init_def)

lemma cmaf_write_sequence [simp]: "w_sequence (snd (cmaf_write smp cp w)) = Suc (w_sequence w)"
  by (simp add: cmaf_write_def Let_def)

lemma writer_run_sequences:
  "fst (writer_run w ops) =
     map (\<lambda>k. min k 0xffffffff) [Suc (w_sequence w) ..< Suc (w_sequence w + writes ops)]"
proof (induction w ops rule: writer_run.induct)
  case (1 w)
  then show ?case by (simp add: writes_def)
next
  case (2 w ty co ops)
  then show ?case by (simp add: writes_def)
next
  case (3 w smp cp ops)
  obtain packets w' where r: "cmaf_write smp cp w = (packets, w')"
    by (cases "cmaf_write smp cp w") auto
  then have seq: "w_sequence w' = Suc (w_sequence w)"
    and hd: "mfhd_sequence packets = min (Suc (w_sequence w)) 0xffffffff"
    using cmaf_write_sequence [of smp cp w] mfhd_sequence_write [of smp cp w] by simp_all
  have ih: "fst (writer_run w' ops) =
      map (\<lambda>k. min k 0xffffffff) [Suc (w_sequence w') ..< Suc (w_sequence w' + writes ops)]"
    using "3.IH" [OF r [symmetric]] by simp
  have step: "fst (writer_run w (Write smp cp # ops)) = mfhd_sequence packets # fst (writer_run w' ops)"
    using r by (simp split: prod.splits)
  have cnt: "writes (Write smp cp # ops) = Suc (writes ops)"
    by (simp add: writes_def)
  have upt: "[Suc (w_sequence w) ..< Suc (w_sequence w + Suc (writes ops))] =
      Suc (w_sequence w) # [Suc (Suc (w_sequence w)) ..< Suc (Suc (w_sequence w) + writes ops)]"
    by (simp add: upt_conv_Cons del: upt_Suc)
  show ?case
    unfolding step cnt upt ih seq hd by simp
qed

lemma writer_run_exact:
  assumes "writes ops \<le> 0xffffffff"
  shows "fst (writer_run new_writer ops) = [1 ..< Suc (writes ops)]"
proof -
  have "map (\<lambda>k. min k 0xffffffff) [1 ..< Suc (writes ops)] = map (\<lambda>k. k) [1 ..< Suc (writes ops)]"
    using assms by (intro map_cong) (auto simp: min_def)
  then show ?thesis
    using writer_run_sequences [of new_writer ops] by (simp add: new_writer_def)
qed

text \<open>
  C8 (amended). Over the lifetime of one CMAFWriter object, beginning at its
  construction, the \<open>mfhd\<close> sequence number emitted by the \<open>k\<close>-th \<open>write()\<close> call is
  \<open>k\<close>, as long as \<open>k\<close> fits the 32-bit field (\<open>k \<le> 0xffffffff\<close>): the numbers are 1, 2,
  3, ... in order and strictly increase starting from 1. From the \<open>0xffffffff\<close>-th call
  on the field stays at \<open>0xffffffff\<close>, since \<open>write32\<close> saturates, so the increase is no
  longer strict. \<open>init()\<close> does not reset the counter: a fragment written after a later
  \<open>init()\<close> on the same writer continues the numbering.
\<close>

theorem C8_sequence_numbers:
  "fst (writer_run new_writer ops) = map (\<lambda>k. min k 0xffffffff) [1 ..< Suc (writes ops)] \<and>
   (writes ops \<le> 0xffffffff \<longrightarrow>
      fst (writer_run new_writer ops) = [1 ..< Suc (writes ops)] \<and>
      sorted_wrt (<) (fst (writer_run new_writer ops))) \<and>
   w_sequence (snd (cmaf_init ty co w)) = w_sequence w \<and>
   mfhd_sequence (fst (cmaf_write smp cp w)) = min (Suc (w_sequence w)) 0xffffffff"
proof -
  have "fst (writer_run new_writer ops) = map (\<lambda>k. min k 0xffffffff) [1 ..< Suc (writes ops)]"
    using writer_run_sequences [of new_writer ops] by (simp add: new_writer_def)
  moreover have "writes ops \<le> 0xffffffff \<longrightarrow>
      fst (writer_run new_writer ops) = [1 ..< Suc (writes ops)] \<and>
      sorted_wrt (<) (fst (writer_run new_writer ops))"
  proof
    assume le: "writes ops \<le> 0xffffffff"
    have "sorted_wrt (<) [1 ..< Suc (writes ops)]"
      by (rule sorted_wrt_upt)
    then show "fst (writer_run new_writer ops) = [1 ..< Suc (writes ops)] \<and>
      sorted_wrt (<) (fst (writer_run new_writer ops))"
      unfolding writer_run_exact [OF le] by (simp del: upt_Suc)
  qed
  ultimately show ?thesis
    using mfhd_sequence_write [of smp cp w] cmaf_init_sequence [of ty co w] by blast
qed

theorem C8_sequence_numbers_witness:
  "fst (writer_run new_writer
          [Init VIDEO H264,
           Write \<lparr>time = 5000, duration = Some 40, data = [0xAB], compositionOffset = Some 10,
                  isKeyFrame = Some True, subSamples = None\<rparr> None,
           Write \<lparr>time = 5040, duration = Some 40, data = [0xCD], compositionOffset = None,
                  isKeyFrame = Some False, subSamples = None\<rparr> None,
           Init VIDEO H264,
           Write \<lparr>time = 5080, duration = Some 40, data = [0xEF], compositionOffset = None,
                  isKeyFrame = Some True, subSamples = None\<rparr> None]) = [1, 2, 3] \<and>
   sorted_wrt (<)
     (fst (writer_run new_writer
          [Init VIDEO H264,
           Write \<lparr>time = 5000, duration = Some 40, data = [0xAB], compositionOffset = Some 10,
                  isKeyFrame = Some True, subSamples = None\<rparr> None,
           Write \<lparr>time = 5040, duration = Some 40, data = [0xCD], compositionOffset = None,
                  isKeyFrame = Some False, subSamples = None\<rparr> None,
           Init VIDEO H264,
           Write \<lparr>time = 5080, duration = Some 40, data = [0xEF], compositionOffset = None,
                  isKeyFrame = Some True, subSamples = None\<rparr> None])) \<and>
   w_sequence (snd (cmaf_init VIDEO H264 \<lparr>w_sequence = 2, w_isVideo = True\<rparr>)) = 2 \<and>
   mfhd_sequence
     (fst (cmaf_write
             \<lparr>time = 5080, duration = Some 40, data = [0xEF], compositionOffset = None,
              isKeyFrame = Some True, subSamples = None\<rparr> None
             \<lparr>w_sequence = 2, w_isVideo = True\<rparr>)) = 3 \<and>
   mfhd_sequence
     (fst (cmaf_write
             \<lparr>time = 5080, duration = Some 40, data = [0xEF], compositionOffset = None,
              isKeyFrame = Some True, subSamples = None\<rparr> None
             \<lparr>w_sequence = 0xffffffff, w_isVideo = True\<rparr>)) = 0xffffffff"
  using C8_sequence_numbers
    [where ops = "[Init VIDEO H264,
           Write \<lparr>time = 5000, duration = Some 40, data = [0xAB], compositionOffset = Some 10,
                  isKeyFrame = Some True, subSamples = None\<rparr> None,
           Write \<lparr>time = 5040, duration = Some 40, data = [0xCD], compositionOffset = None,
                  isKeyFrame = Some False, subSamples = None\<rparr> None,
           Init VIDEO H264,
           Write \<lparr>time = 5080, duration = Some 40, data = [0xEF], compositionOffset = None,
                  isKeyFrame = Some True, subSamples = None\<rparr> None]"
       and ty = VIDEO and co = H264 and w = "\<lparr>w_sequence = 2, w_isVideo = True\<rparr>"
       and smp = "\<lparr>time = 5080, duration = Some 40, data = [0xEF], compositionOffset = None,
              isKeyFrame = Some True, subSamples = None\<rparr>"
       and cp = None]
    C8_sequence_numbers
    [where ops = "[]" and ty = VIDEO and co = H264
       and w = "\<lparr>w_sequence = 0xffffffff, w_isVideo = True\<rparr>"
       and smp = "\<lparr>time = 5080, duration = Some 40, data = [0xEF], compositionOffset = None,
              isKeyFrame = Some True, subSamples = None\<rparr>"
       and cp = None]
  by (simp add: writes_def upt_rec)

text \<open>
  The claim as written fails at a second \<open>init()\<close>: after \<open>init\<close>, one \<open>write\<close>
  and \<open>init\<close> again on the same writer, the first fragment written carries sequence
  number 2, not 1.
\<close>

theorem C8_reinit_continues:
  "mfhd_sequence
     (fst (cmaf_write
             \<lparr>time = 5040, duration = Some 40, data = [0xCD], compositionOffset = None,
              isKeyFrame = Some True, subSamples = None\<rparr> None
             (snd (cmaf_init VIDEO H264
                (snd (cmaf_write
                        \<lparr>time = 5000, duration = Some 40, data = [0xAB],
                         compositionOffset = None, isKeyFrame = Some True, subSamples = None\<rparr>
                        None
                        (snd (cmaf_init VIDEO H264 new_writer)))))))) = 2"
  by (simp add: mfhd_sequence_write new_writer_def)

section \<open>RTS media packet times\<close>









section \<open>Sequence skipping and bandwidth emulation\<close>




lemma up_probe_range:
  assumes "r_up vt = Some u" and "\<not> r_overScreen u"
    and "r_bandwidth u - r_bandwidth vt > 0" and "videoTime_now > pvt"
  shows "up_probe (Some vt) (Some pvt) True videoTime_now (Some ps) =
           Probe (Request GET (r_id u) ps
             (Some (- ((- ((r_bandwidth u - r_bandwidth vt) * (videoTime_now - pvt))) div 1000) - 1)))"
proof -
  have "0 < (r_bandwidth u - r_bandwidth vt) * (videoTime_now - pvt)"
    using assms(3,4) by simp
  then have "- ((- ((r_bandwidth u - r_bandwidth vt) * (videoTime_now - pvt))) div 1000) \<noteq> 0"
    by linarith
  then show ?thesis
    using assms by (simp add: up_probe_def sequence_request_def Let_def)
qed

lemma up_probe_negative:
  assumes "r_up vt = Some u" and "r_bandwidth u - r_bandwidth vt < 0"
  shows "up_probe (Some vt) pvt tryOk videoTime_now ps \<in> {NoProbe, NoEmulation}"
  using assms by (simp add: up_probe_def Let_def split: option.splits)
















text \<open>
  C9. When the rendition above needs the same bandwidth as the current one
  (\<open>extraByteRate = 0\<close>), the enabling conditions holding, the source still sends a
  request for the previous sequence on the rendition above: the computed length is 0,
  which \<open>_downloadSequence\<close> turns into a HEAD request without a Range header. The
  claim says that no request is sent when \<open>extraByteRate \<le> 0\<close>.
\<close>

theorem C9_equal_bandwidth_probe:
  "up_probe (Some (Rendition 2 400000 False (Some (Rendition 1 400000 False None))))
     (Some 1000) True 3000 (Some 99) = Probe (Request HEAD 1 99 None)"
  by (simp add: up_probe_def sequence_request_def Let_def)

section \<open>Track chains\<close>

lemma map_fst_map_set:
  "map fst (map_set m k v) = (if k \<in> fst ` set m then map fst m else map fst m @ [k])"
  by (induction m) (force simp: image_iff)+

lemma map_set_keys: "fst ` set (map_set m k v) = insert k (fst ` set m)"
proof -
  have "set (map fst (map_set m k v)) = insert k (set (map fst m))"
    unfolding map_fst_map_set by auto
  then show ?thesis by simp
qed

lemma map_set_length: "length m = length (map_set m k v) \<longleftrightarrow> k \<in> fst ` set m"
proof -
  have "length (map fst m) = length (map fst (map_set m k v)) \<longleftrightarrow> k \<in> fst ` set m"
    unfolding map_fst_map_set by simp
  then show ?thesis by simp
qed

lemma medias_of_push:
  "medias_of ty' (push_media ty a m) =
     (if ty' = ty then medias_of ty m @ [a] else medias_of ty' m)"
  by (cases ty; cases ty') (simp_all add: medias_of_def push_media_def)

lemma medias_of_m_tracks [simp]: "medias_of ty (m\<lparr>m_tracks := x\<rparr>) = medias_of ty m"
  by (simp add: medias_of_def)

lemma m_tracks_push [simp]: "m_tracks (push_media ty a m) = m_tracks m"
  by (simp add: push_media_def)

lemma rchain_cong:
  "(\<And>x. x \<in> set as \<Longrightarrow> h' x = h x) \<Longrightarrow> rchain h' nxt as = rchain h nxt as"
proof (induction as arbitrary: nxt)
  case Nil
  then show ?case by simp
next
  case (Cons a as)
  then have "rchain h' (Some a) as = rchain h (Some a) as" by simp
  moreover have "h' a = h a" using Cons.prems by simp
  moreover have "as \<noteq> [] \<Longrightarrow> h' (hd as) = h (hd as)" using Cons.prems by simp
  ultimately show ?case by (cases as) simp_all
qed

lemma rchain_snoc:
  assumes "rchain h None (rev L)" and "distinct L" and "a \<notin> set L"
    and "\<And>x. x \<in> set L \<Longrightarrow> bandwidth (h a) \<le> bandwidth (h x)"
  shows "rchain (link_last h L a) None (a # rev L)"
proof (cases "rev L")
  case Nil
  then show ?thesis by (simp add: link_last_def)
next
  case (Cons b bs)
  then have Lrev: "L = rev (b # bs)"
    by (metis rev_rev_ident)
  then have L: "L \<noteq> []" "last L = b" "set L = insert b (set bs)"
    by simp_all
  define h1 where "h1 = h(a := (h a)\<lparr>down := None, up := Some b\<rparr>)"
  define h2 where "h2 = h1(b := (h1 b)\<lparr>down := Some a\<rparr>)"
  have dr: "distinct (b # bs)" using assms(2) Cons by (metis distinct_rev)
  from assms L dr have ab: "a \<noteq> b" and bbs: "b \<notin> set bs" and abs: "a \<notin> set bs" by auto
  have agree: "\<And>x. x \<in> set bs \<Longrightarrow> h2 x = h x"
    using bbs abs by (auto simp: h2_def h1_def)
  from assms(1) Cons have hb: "up (h b) = (case bs of [] \<Rightarrow> None | c # _ \<Rightarrow> Some c)"
    and hbw: "case bs of [] \<Rightarrow> True | c # _ \<Rightarrow> bandwidth (h b) \<le> bandwidth (h c)"
    and rest: "rchain h (Some b) bs"
    by simp_all
  have r2: "rchain h2 (Some b) bs"
    using rchain_cong [of bs h2 h "Some b"] agree rest by simp
  have b2: "h2 b = (h b)\<lparr>down := Some a\<rparr>"
    using ab by (simp add: h2_def h1_def)
  have a2: "h2 a = (h a)\<lparr>down := None, up := Some b\<rparr>"
    using ab by (simp add: h2_def h1_def)
  have bw: "bandwidth (h a) \<le> bandwidth (h b)"
    using assms(4) [of b] L by simp
  have hd2: "case bs of [] \<Rightarrow> True | c # _ \<Rightarrow> bandwidth (h2 b) \<le> bandwidth (h2 c)"
    using hbw agree b2 by (cases bs) simp_all
  have "rchain h2 None (a # b # bs)"
    using a2 b2 bw hb hd2 r2 by simp
  moreover have "link_last h L a = h2"
    using L by (simp add: link_last_def h2_def h1_def)
  ultimately show ?thesis
    using Cons by simp
qed

lemma rchain_links:
  assumes "rchain h nxt R" and "distinct R" and "a \<in> set R"
  shows "(\<forall>u. up (h a) = Some u \<longrightarrow>
            u \<in> set R \<and> down (h u) = Some a \<and> bandwidth (h a) \<le> bandwidth (h u)) \<and>
         (\<forall>d. down (h a) = Some d \<longrightarrow>
            (a = hd R \<and> nxt = Some d) \<or>
            (d \<in> set R \<and> up (h d) = Some a \<and> bandwidth (h d) \<le> bandwidth (h a)))"
  using assms
proof (induction R arbitrary: nxt)
  case Nil
  then show ?case by simp
next
  case (Cons x xs)
  show ?case
  proof (cases "a = x")
    case True
    with Cons.prems show ?thesis
      by (cases xs) auto
  next
    case False
    with Cons.prems have axs: "a \<in> set xs" and dxs: "distinct xs" and r: "rchain h (Some x) xs"
      by auto
    from Cons.IH [OF r dxs axs]
    have ih_up: "\<forall>u. up (h a) = Some u \<longrightarrow>
            u \<in> set xs \<and> down (h u) = Some a \<and> bandwidth (h a) \<le> bandwidth (h u)"
      and ih_down: "\<forall>d. down (h a) = Some d \<longrightarrow>
            (a = hd xs \<and> Some x = Some d) \<or>
            (d \<in> set xs \<and> up (h d) = Some a \<and> bandwidth (h d) \<le> bandwidth (h a))"
      by auto
    have hx: "a = hd xs \<Longrightarrow> up (h x) = Some a \<and> bandwidth (h x) \<le> bandwidth (h a)"
      using Cons.prems(1) axs by (cases xs) auto
    show ?thesis
      using ih_up ih_down hx False by auto
  qed
qed


lemma link_last_static [simp]:
  "track_id (link_last h L a x) = track_id (h x)"
  "track_type (link_last h L a x) = track_type (h x)"
  "bandwidth (link_last h L a x) = bandwidth (h x)"
  by (simp_all add: link_last_def)

lemma link_last_other:
  "x \<noteq> a \<Longrightarrow> x \<notin> set L \<Longrightarrow> link_last h L a x = h x"
  by (auto simp: link_last_def)

lemma fix_step_old:
  "track_id (h a) \<in> fst ` set (m_tracks m) \<Longrightarrow>
   fix_step (h, m) a = (h, m\<lparr>m_tracks := map_set (m_tracks m) (track_id (h a)) a\<rparr>)"
  by (simp add: fix_step_def Let_def map_set_length)

lemma fix_step_new:
  "track_id (h a) \<notin> fst ` set (m_tracks m) \<Longrightarrow>
   fix_step (h, m) a =
     (link_last h (medias_of (track_type (h a)) m) a,
      push_media (track_type (h a)) a
        (m\<lparr>m_tracks := map_set (m_tracks m) (track_id (h a)) a\<rparr>))"
  by (simp add: fix_step_def Let_def map_set_length)

lemma fix_step_static [simp]:
  "track_id (fst (fix_step (h, m) a) x) = track_id (h x)"
  "track_type (fst (fix_step (h, m) a) x) = track_type (h x)"
  "bandwidth (fst (fix_step (h, m) a) x) = bandwidth (h x)"
  by (cases "track_id (h a) \<in> fst ` set (m_tracks m)"; simp add: fix_step_old fix_step_new)+

lemma fix_step_medias:
  "set (medias_of ty (snd (fix_step (h, m) a))) \<subseteq> insert a (set (medias_of ty m))"
  by (cases "track_id (h a) \<in> fst ` set (m_tracks m)")
     (auto simp: fix_step_old fix_step_new medias_of_push split: if_splits)

lemma fix_step_inv:
  assumes inv: "fix_inv h m"
    and ord: "\<And>ty x. x \<in> set (medias_of ty m) \<Longrightarrow> bandwidth (h a) \<le> bandwidth (h x)"
  shows "fix_inv (fst (fix_step (h, m) a)) (snd (fix_step (h, m) a))"
proof (cases "track_id (h a) \<in> fst ` set (m_tracks m)")
  case True
  then have "insert (track_id (h a)) (fst ` set (m_tracks m)) = fst ` set (m_tracks m)"
    by auto
  with inv True show ?thesis
    by (simp add: fix_step_old fix_inv_def map_set_keys)
next
  case False
  define ty where "ty = track_type (h a)"
  define L where "L = medias_of ty m"
  define h2 where "h2 = link_last h L a"
  define m2 where "m2 = push_media ty a (m\<lparr>m_tracks := map_set (m_tracks m) (track_id (h a)) a\<rparr>)"
  have step: "fix_step (h, m) a = (h2, m2)"
    using False by (simp add: fix_step_new h2_def m2_def L_def ty_def)
  have notin: "a \<notin> set (medias_of ty' m)" for ty'
    using inv False unfolding fix_inv_def by blast
  have keys: "fst ` set (m_tracks m2) = insert (track_id (h a)) (fst ` set (m_tracks m))"
    by (simp add: m2_def map_set_keys)
  have "distinct (medias_of ty' m2) \<and> rchain h2 None (rev (medias_of ty' m2)) \<and>
        (\<forall>x \<in> set (medias_of ty' m2).
            track_type (h2 x) = ty' \<and> track_id (h2 x) \<in> fst ` set (m_tracks m2))" for ty'
  proof (cases "ty' = ty")
    case True
    have med: "medias_of ty' m2 = L @ [a]"
      using True by (simp add: m2_def medias_of_push L_def)
    have dL: "distinct L" and rL: "rchain h None (rev L)"
      and tL: "\<forall>x \<in> set L. track_type (h x) = ty \<and> track_id (h x) \<in> fst ` set (m_tracks m)"
      using inv unfolding fix_inv_def L_def by blast+
    have aL: "a \<notin> set L" using notin L_def by simp
    have "rchain h2 None (a # rev L)"
      unfolding h2_def
      by (rule rchain_snoc [OF rL dL aL]) (simp add: ord L_def)
    then show ?thesis
      using med dL aL tL True keys by (auto simp: h2_def ty_def)
  next
    case False
    have med: "medias_of ty' m2 = medias_of ty' m"
      using False by (simp add: m2_def medias_of_push)
    have d: "distinct (medias_of ty' m)" and r: "rchain h None (rev (medias_of ty' m))"
      and t: "\<forall>x \<in> set (medias_of ty' m).
                track_type (h x) = ty' \<and> track_id (h x) \<in> fst ` set (m_tracks m)"
      using inv unfolding fix_inv_def by blast+
    have tL: "\<forall>x \<in> set L. track_type (h x) = ty"
      using inv unfolding fix_inv_def L_def by blast
    have same: "h2 x = h x" if "x \<in> set (medias_of ty' m)" for x
    proof -
      from that t have "track_type (h x) = ty'" by blast
      with tL False have "x \<notin> set L" by auto
      moreover from that notin have "x \<noteq> a" by auto
      ultimately show ?thesis by (simp add: h2_def link_last_other)
    qed
    have "rchain h2 None (rev (medias_of ty' m))"
      using rchain_cong [of "rev (medias_of ty' m)" h2 h None] same r by simp
    then show ?thesis
      using med d t keys by (auto simp: h2_def)
  qed
  then show ?thesis
    unfolding fix_inv_def step by simp
qed

lemma fix_fold_inv:
  assumes "fix_inv h m"
    and "sorted_wrt (\<lambda>x y. bandwidth (h y) \<le> bandwidth (h x)) rest"
    and "\<And>ty x y. x \<in> set (medias_of ty m) \<Longrightarrow> y \<in> set rest \<Longrightarrow>
            bandwidth (h y) \<le> bandwidth (h x)"
  shows "fix_inv (fst (foldl fix_step (h, m) rest)) (snd (foldl fix_step (h, m) rest))"
  using assms
proof (induction rest arbitrary: h m)
  case Nil
  then show ?case by simp
next
  case (Cons a rest)
  obtain h1 m1 where step: "fix_step (h, m) a = (h1, m1)"
    by (cases "fix_step (h, m) a") auto
  have bw: "bandwidth (h1 x) = bandwidth (h x)" for x
    using fix_step_static(3) [of h m a x] step by simp
  have inv1: "fix_inv h1 m1"
    using fix_step_inv [of h m a] Cons.prems(1,3) step by simp
  have srt1: "sorted_wrt (\<lambda>x y. bandwidth (h1 y) \<le> bandwidth (h1 x)) rest"
    using Cons.prems(2) by (simp add: bw)
  have ord1: "bandwidth (h1 y) \<le> bandwidth (h1 x)"
    if "x \<in> set (medias_of ty m1)" "y \<in> set rest" for ty x y
  proof -
    from that(1) fix_step_medias [of ty h m a] step
    have "x = a \<or> x \<in> set (medias_of ty m)" by auto
    then show ?thesis
      using Cons.prems(2,3) that(2) by (auto simp: bw)
  qed
  from Cons.IH [OF inv1 srt1 ord1] step show ?case by simp
qed

lemma fix_metadata_inv:
  assumes "dataTracks m = []"
  shows "fix_inv (fst (fix_metadata h m)) (snd (fix_metadata h m))"
proof -
  define m0 where "m0 = m\<lparr>audioTracks := [], videoTracks := [], m_tracks := []\<rparr>"
  define ts where "ts = sort_key (\<lambda>a. - bandwidth (h a))
      (videoTracks m @ audioTracks m @ dataTracks m @ map snd (m_tracks m))"
  have empty: "medias_of ty m0 = []" for ty
    using assms by (simp add: medias_of_def m0_def)
  have inv0: "fix_inv h m0"
    by (simp add: fix_inv_def empty)
  have "sorted (map (\<lambda>a. - bandwidth (h a)) ts)"
    by (simp add: ts_def)
  then have srt: "sorted_wrt (\<lambda>x y. bandwidth (h y) \<le> bandwidth (h x)) ts"
    by (simp add: sorted_map)
  have "fix_inv (fst (foldl fix_step (h, m0) ts)) (snd (foldl fix_step (h, m0) ts))"
    by (rule fix_fold_inv [OF inv0 srt]) (simp add: empty)
  then show ?thesis
    by (simp add: fix_metadata_def Let_def m0_def ts_def)
qed

lemmas fix_eval = fix_metadata_def fix_step_def link_last_def medias_of_def push_media_def Let_def

text \<open>
  C6 (amended). After \<open>Metadata.fix()\<close> on a Metadata whose \<open>dataTracks\<close> list was
  empty (as the constructor leaves it), every track of a per-kind list satisfies
  \<open>track.up.bandwidth \<ge> track.bandwidth \<ge> track.down.bandwidth\<close> whenever the
  neighbour exists, with \<open>track.up.down == track\<close> and \<open>track.down.up == track\<close>.
\<close>

theorem C6_chain_links:
  assumes "dataTracks m = []"
  shows "\<forall>ty. \<forall>a \<in> set (medias_of ty (snd (fix_metadata h m))).
           (\<forall>u. up (fst (fix_metadata h m) a) = Some u \<longrightarrow>
              down (fst (fix_metadata h m) u) = Some a \<and>
              bandwidth (fst (fix_metadata h m) a) \<le> bandwidth (fst (fix_metadata h m) u)) \<and>
           (\<forall>d. down (fst (fix_metadata h m) a) = Some d \<longrightarrow>
              up (fst (fix_metadata h m) d) = Some a \<and>
              bandwidth (fst (fix_metadata h m) d) \<le> bandwidth (fst (fix_metadata h m) a))"
proof (intro allI ballI)
  fix ty a
  assume a: "a \<in> set (medias_of ty (snd (fix_metadata h m)))"
  from fix_metadata_inv [OF assms, of h]
  have d: "distinct (rev (medias_of ty (snd (fix_metadata h m))))"
    and r: "rchain (fst (fix_metadata h m)) None (rev (medias_of ty (snd (fix_metadata h m))))"
    unfolding fix_inv_def by auto
  from a have a': "a \<in> set (rev (medias_of ty (snd (fix_metadata h m))))" by simp
  from rchain_links [OF r d a']
  show "(\<forall>u. up (fst (fix_metadata h m) a) = Some u \<longrightarrow>
              down (fst (fix_metadata h m) u) = Some a \<and>
              bandwidth (fst (fix_metadata h m) a) \<le> bandwidth (fst (fix_metadata h m) u)) \<and>
           (\<forall>d. down (fst (fix_metadata h m) a) = Some d \<longrightarrow>
              up (fst (fix_metadata h m) d) = Some a \<and>
              bandwidth (fst (fix_metadata h m) d) \<le> bandwidth (fst (fix_metadata h m) a))"
    by auto
qed

theorem C6_chain_links_witness:
  "(let h = (\<lambda>_. \<lparr>track_id = 0, track_type = DATA, bandwidth = 0, up = None, down = None\<rparr>)
              (1 := \<lparr>track_id = 1, track_type = VIDEO, bandwidth = 800, up = None, down = None\<rparr>,
               2 := \<lparr>track_id = 2, track_type = VIDEO, bandwidth = 400, up = None, down = None\<rparr>,
               3 := \<lparr>track_id = 3, track_type = AUDIO, bandwidth = 64, up = None, down = None\<rparr>);
        m = \<lparr>m_tracks = [(3, 3), (2, 2), (1, 1)], audioTracks = [], videoTracks = [],
             dataTracks = []\<rparr>
    in videoTracks (snd (fix_metadata h m)) = [1, 2] \<and>
       audioTracks (snd (fix_metadata h m)) = [3] \<and>
       up (fst (fix_metadata h m) 2) = Some 1 \<and>
       down (fst (fix_metadata h m) 1) = Some 2 \<and>
       bandwidth (fst (fix_metadata h m) 2) \<le> bandwidth (fst (fix_metadata h m) 1))"
  using C6_chain_links
    [of "\<lparr>m_tracks = [(3, 3), (2, 2), (1, 1)], audioTracks = [], videoTracks = [],
          dataTracks = []\<rparr>"
        "(\<lambda>_. \<lparr>track_id = 0, track_type = DATA, bandwidth = 0, up = None, down = None\<rparr>)
              (1 := \<lparr>track_id = 1, track_type = VIDEO, bandwidth = 800, up = None, down = None\<rparr>,
               2 := \<lparr>track_id = 2, track_type = VIDEO, bandwidth = 400, up = None, down = None\<rparr>,
               3 := \<lparr>track_id = 3, track_type = AUDIO, bandwidth = 64, up = None, down = None\<rparr>)"]
  by (simp add: fix_eval)

text \<open>
  The claim as written fails for two renditions of the same bandwidth: after \<open>fix\<close>
  the second video track has the first as \<open>up\<close>, and the bandwidth of \<open>up\<close> is not
  greater than its own.
\<close>

theorem C6_equal_bandwidth:
  "(let h = (\<lambda>_. \<lparr>track_id = 0, track_type = DATA, bandwidth = 0, up = None, down = None\<rparr>)
              (1 := \<lparr>track_id = 1, track_type = VIDEO, bandwidth = 500, up = None, down = None\<rparr>,
               2 := \<lparr>track_id = 2, track_type = VIDEO, bandwidth = 500, up = None, down = None\<rparr>);
        m = \<lparr>m_tracks = [(1, 1), (2, 2)], audioTracks = [], videoTracks = [], dataTracks = []\<rparr>
    in videoTracks (snd (fix_metadata h m)) = [1, 2] \<and>
       up (fst (fix_metadata h m) 2) = Some 1 \<and>
       \<not> bandwidth (fst (fix_metadata h m) 1) > bandwidth (fst (fix_metadata h m) 2))"
  by (simp add: fix_eval)

text \<open>
  C5. \<open>fix\<close> empties \<open>audioTracks\<close>, \<open>videoTracks\<close> and the map before it
  refills them, but not \<open>dataTracks\<close>: on a Metadata that has a data track and has
  been fixed once, a second \<open>fix()\<close> appends the data track again (and links it to
  itself), where the claim says the list is rebuilt from scratch.
\<close>

theorem C5_second_fix_appends_data_track:
  "(let h = (\<lambda>_. \<lparr>track_id = 0, track_type = DATA, bandwidth = 0, up = None, down = None\<rparr>)
              (4 := \<lparr>track_id = 4, track_type = DATA, bandwidth = 1, up = None, down = None\<rparr>);
        m = \<lparr>m_tracks = [(4, 4)], audioTracks = [], videoTracks = [], dataTracks = []\<rparr>;
        h1 = fst (fix_metadata h m);
        m1 = snd (fix_metadata h m)
    in dataTracks m1 = [4] \<and>
       dataTracks (snd (fix_metadata h1 m1)) = [4, 4] \<and>
       up (fst (fix_metadata h1 m1) 4) = Some 4 \<and>
       down (fst (fix_metadata h1 m1) 4) = Some 4)"
  by (simp add: fix_eval)

lemma fix_map_keeps_last:
  "(let h = (\<lambda>_. \<lparr>track_id = 0, track_type = DATA, bandwidth = 0, up = None, down = None\<rparr>)
              (7 := \<lparr>track_id = 1, track_type = VIDEO, bandwidth = 800, up = None, down = None\<rparr>,
               8 := \<lparr>track_id = 1, track_type = VIDEO, bandwidth = 400, up = None, down = None\<rparr>);
        m = \<lparr>m_tracks = [(1, 8)], audioTracks = [], videoTracks = [7], dataTracks = []\<rparr>
    in videoTracks (snd (fix_metadata h m)) = [7] \<and>
       m_tracks (snd (fix_metadata h m)) = [(1, 8)])"
  by (simp add: fix_eval)

end
